theory Spec2Isabelle
  imports Main "HOL-Library.Word" "HOL-Library.AList" "HOL-Library.Multiset"
begin

section \<open>Values of the host language\<close>

text \<open>
  The store of \<^verbatim>\<open>dejavu/database_sqla.py\<close> is embedded as pure functions over an explicit
  state.  Byte strings are lists of 8-bit words, Python integers are \<open>int\<close>, exceptions are
  values of the type \<open>error\<close> and every operation returns \<open>error + result\<close> together with
  the state it leaves behind.
\<close>

type_synonym byte = "8 word"
type_synonym bytes = "byte list"

datatype error =
    ValueError
  | OverflowError
  | AttributeError
  | KeyError
  | IntegrityError
  | MultipleResultsFound

subsection \<open>\<^verbatim>\<open>bytes.hex\<close>, \<open>bytes.fromhex\<close> and \<open>str.upper\<close>\<close>

definition hexdigit :: "nat \<Rightarrow> char" where
  "hexdigit n = (if n < 10 then char_of (48 + n) else char_of (87 + n))"

definition hex_of_byte :: "byte \<Rightarrow> string" where
  "hex_of_byte b = [hexdigit (unat b div 16), hexdigit (unat b mod 16)]"

text \<open>\<^verbatim>\<open>b.hex()\<close>: two lowercase digits for each byte.\<close>

definition hex :: "bytes \<Rightarrow> string" where
  "hex bs = concat (map hex_of_byte bs)"

definition hex_value :: "char \<Rightarrow> nat option" where
  "hex_value c =
     (let n = (of_char c :: nat) in
      if 48 \<le> n \<and> n \<le> 57 then Some (n - 48)
      else if 97 \<le> n \<and> n \<le> 102 then Some (n - 87)
      else if 65 \<le> n \<and> n \<le> 70 then Some (n - 55)
      else None)"

text \<open>ASCII white space: tab, line feed, vertical tab, form feed, carriage return, space.\<close>

definition isspace :: "char \<Rightarrow> bool" where
  "isspace c = (let n = (of_char c :: nat) in (9 \<le> n \<and> n \<le> 13) \<or> n = 32)"

text \<open>
  \<^verbatim>\<open>bytes.fromhex(s)\<close>: white space is skipped between bytes, each byte is two hexadecimal
  digits of either case, anything else raises \<^verbatim>\<open>ValueError\<close> (here \<open>None\<close>).
\<close>

fun fromhex :: "string \<Rightarrow> bytes option" where
  "fromhex [] = Some []"
| "fromhex [c] = (if isspace c then Some [] else None)"
| "fromhex (c # d # cs) =
     (if isspace c then fromhex (d # cs)
      else (case (hex_value c, hex_value d) of
              (Some x, Some y) \<Rightarrow> map_option ((#) (of_nat (16 * x + y))) (fromhex cs)
            | _ \<Rightarrow> None))"

text \<open>
  \<^verbatim>\<open>str.upper\<close> on the ASCII range; the only strings it is applied to come out of \<open>hex\<close>.
\<close>

definition upper_char :: "char \<Rightarrow> char" where
  "upper_char c =
     (let n = (of_char c :: nat) in if 97 \<le> n \<and> n \<le> 122 then char_of (n - 32) else c)"

definition upper :: "string \<Rightarrow> string" where
  "upper s = map upper_char s"

subsection \<open>Numbers and \<^verbatim>\<open>int()\<close>\<close>

text \<open>
  The numbers an offset can be: an integer, a boolean (a subclass of the integers), or a
  float.  A finite float is exactly \<open>m * 2 ^ e\<close> for integers \<open>m\<close> and \<open>e\<close>, which is how it
  is kept here; the two infinities and NaN are separate.  \<^verbatim>\<open>int(x)\<close> truncates toward zero.
\<close>

datatype pynum =
    PyInt int
  | PyBool bool
  | PyFloat int int
  | PyInf bool
  | PyNaN

fun py_int :: "pynum \<Rightarrow> error + int" where
  "py_int (PyInt i) = Inr i"
| "py_int (PyBool b) = Inr (if b then 1 else 0)"
| "py_int (PyFloat m e) =
     Inr (if 0 \<le> e then m * 2 ^ nat e else sgn m * (\<bar>m\<bar> div 2 ^ nat (- e)))"
| "py_int (PyInf _) = Inl OverflowError"
| "py_int PyNaN = Inl ValueError"

section \<open>Schema\<close>

text \<open>
  The mapped classes \<^verbatim>\<open>Song\<close> and \<^verbatim>\<open>Fingerprint\<close>.  \<open>file_sha1_raw\<close> and \<open>hash_raw\<close> are
  the binary columns \<^verbatim>\<open>_file_sha1\<close> and \<^verbatim>\<open>_hash\<close>; the properties \<^verbatim>\<open>file_sha1\<close> and
  \<^verbatim>\<open>hash\<close> read them through \<open>hex\<close> and write them through \<open>fromhex\<close>.  \<open>fp_song_id\<close> is
  \<^verbatim>\<open>Fingerprint.song_id\<close>.  The lengths 20 and 8 the columns are declared with are not
  checked by the code, so the byte strings here have any length.  The flag
  \<^verbatim>\<open>fingerprinted\<close> is written as \<^verbatim>\<open>False\<close> (the default) and \<^verbatim>\<open>True\<close> only.
\<close>

record song =
  song_id :: int
  name :: string
  fingerprinted :: bool
  file_sha1_raw :: bytes

record fingerprint =
  hash_raw :: bytes
  fp_song_id :: int
  song_offset :: int

definition file_sha1 :: "song \<Rightarrow> string" where
  "file_sha1 s = hex (file_sha1_raw s)"

text \<open>
  The two tables, in the order the backend returns their rows.  \<open>next_song_id\<close> is the
  autoincrement counter of \<^verbatim>\<open>songs.song_id\<close>, and \<open>foreign_keys\<close> says whether the backend
  enforces the reference from \<^verbatim>\<open>fingerprints.song_id\<close> to \<^verbatim>\<open>songs.song_id\<close>.
\<close>

record database =
  songs :: "song list"
  fingerprints :: "fingerprint list"
  next_song_id :: int
  foreign_keys :: bool

section \<open>Sessions\<close>

text \<open>
  What the outside can observe of a run: the calls made on the session, the \<^verbatim>\<open>IN\<close> lookups
  sent to the backend, and the warnings logged.
\<close>

datatype event =
    Session
  | Commit
  | Rollback
  | Close
  | Select_in "bytes list"
  | Warning string

record store =
  db :: database
  log :: "event list"

text \<open>
  A session works on its own view of the data.  \<open>new\<close> holds the fingerprint objects given
  to \<^verbatim>\<open>session.add\<close> that have not been written yet.
\<close>

record session =
  view :: database
  new :: "fingerprint list"
  trail :: "event list"

text \<open>
  Writing the pending rows: a row that repeats the primary key \<^verbatim>\<open>(hash, song_id, song_offset)\<close>
  or, where references are enforced, names a song that does not exist, is refused.
\<close>

fun insert_rows :: "fingerprint list \<Rightarrow> database \<Rightarrow> error + database" where
  "insert_rows [] d = Inr d"
| "insert_rows (f # fs) d =
     (if f \<in> set (fingerprints d) then Inl IntegrityError
      else if foreign_keys d \<and> fp_song_id f \<notin> song_id ` set (songs d) then Inl IntegrityError
      else insert_rows fs (d\<lparr>fingerprints := fingerprints d @ [f]\<rparr>))"

definition flush :: "session \<Rightarrow> error + session" where
  "flush s =
     (case insert_rows (new s) (view s) of
        Inl e \<Rightarrow> Inl e
      | Inr d \<Rightarrow> Inr (s\<lparr>view := d, new := []\<rparr>))"

text \<open>
  \<^verbatim>\<open>
  @contextmanager
  def session_scope(self):
      session = self.Session()
      try:
          yield session
          session.commit()
      except:
          session.rollback()
          raise
      finally:
          session.close()
  \<close>
  The body of the \<^verbatim>\<open>with\<close> block runs on a fresh session.  When it returns, \<^verbatim>\<open>commit\<close> is
  called, which writes what is pending.  An exception from the body or from the commit is
  answered with \<^verbatim>\<open>rollback\<close> and raised again.  \<^verbatim>\<open>close\<close> is called last on every path.
  The events \<open>Commit\<close>, \<open>Rollback\<close> and \<open>Close\<close> record these calls.
\<close>

definition session_scope ::
  "store \<Rightarrow> (session \<Rightarrow> (error + 'a) \<times> session) \<Rightarrow> (error + 'a) \<times> store" where
  "session_scope st body =
     (case body \<lparr>view = db st, new = [], trail = [Session]\<rparr> of
        (Inr a, s) \<Rightarrow>
          (case flush s of
             Inr s' \<Rightarrow> (Inr a, \<lparr>db = view s', log = log st @ trail s' @ [Commit, Close]\<rparr>)
           | Inl e \<Rightarrow> (Inl e, \<lparr>db = db st, log = log st @ trail s @ [Commit, Rollback, Close]\<rparr>))
      | (Inl e, s) \<Rightarrow> (Inl e, \<lparr>db = db st, log = log st @ trail s @ [Rollback, Close]\<rparr>))"

section \<open>Helpers of the store\<close>

record song_dict =
  d_song_id :: int
  d_song_name :: string
  d_fingerprinted :: int
  d_file_sha1 :: string

text \<open>
  \<^verbatim>\<open>
  def _song_to_dict(song):
      return {
          SQLADatabase.FIELD_SONG_ID: song.song_id,
          SQLADatabase.FIELD_SONGNAME: song.name,
          SQLADatabase.FIELD_FINGERPRINTED: 1 if song.fingerprinted is True else 0,
          SQLADatabase.FIELD_FILE_SHA1: song.file_sha1.upper()
      } if song is not None else None
  \<close>
  The four keys are the fields of the record \<open>song_dict\<close>.
\<close>

definition song_to_dict :: "song option \<Rightarrow> song_dict option" where
  "song_to_dict so =
     (case so of
        None \<Rightarrow> None
      | Some s \<Rightarrow>
          Some \<lparr>d_song_id = song_id s,
                d_song_name = name s,
                d_fingerprinted = (if fingerprinted s then 1 else 0),
                d_file_sha1 = upper (file_sha1 s)\<rparr>)"

text \<open>
  \<^verbatim>\<open>
  def _grouper(iterable, n, fillvalue=None):
      args = [iter(iterable)] * n
      return (filter(None, values) for values
              in zip_longest(fillvalue=fillvalue, *args))
  \<close>
  All \<open>n\<close> arguments of \<^verbatim>\<open>zip_longest\<close> are one iterator, so each tuple takes the next
  \<open>n\<close> items; the last tuple is filled up with \<open>None\<close>, and no tuple is produced once the
  iterator is empty (nor any when \<open>n = 0\<close>).
\<close>

function zip_longest :: "'a list \<Rightarrow> nat \<Rightarrow> 'a option list list" where
  "zip_longest xs n =
     (if xs = [] \<or> n = 0 then []
      else (map Some (take n xs) @ replicate (n - length (take n xs)) None)
           # zip_longest (drop n xs) n)"
  by pat_completeness auto
termination
  by (relation "measure (\<lambda>(xs, n). length xs)") auto

text \<open>Truth value of a tuple entry: \<^verbatim>\<open>None\<close> and the empty byte string are false.\<close>

fun truthy :: "bytes option \<Rightarrow> bool" where
  "truthy None = False"
| "truthy (Some b) = (b \<noteq> [])"

text \<open>\<^verbatim>\<open>filter(None, values)\<close> keeps the entries that are true.\<close>

definition filter_None :: "bytes option list \<Rightarrow> bytes list" where
  "filter_None values = map the (filter truthy values)"

definition grouper :: "bytes list \<Rightarrow> nat \<Rightarrow> bytes list list" where
  "grouper iterable n = map filter_None (zip_longest iterable n)"

text \<open>\<^verbatim>\<open>query(Song).get(sid)\<close>: the row with that primary key, if any.\<close>

definition query_get :: "song list \<Rightarrow> int \<Rightarrow> song option" where
  "query_get rows sid = find (\<lambda>s. song_id s = sid) rows"

text \<open>\<^verbatim>\<open>one_or_none()\<close>: no row, the only row, or \<^verbatim>\<open>MultipleResultsFound\<close>.\<close>

fun one_or_none :: "'a list \<Rightarrow> error + 'a option" where
  "one_or_none [] = Inr None"
| "one_or_none [x] = Inr (Some x)"
| "one_or_none (x # y # zs) = Inl MultipleResultsFound"

section \<open>Operations of \<^verbatim>\<open>SQLADatabase\<close>\<close>

text \<open>
  The reads: \<^verbatim>\<open>get_num_songs\<close> is \<^verbatim>\<open>query(Song).filter_by(fingerprinted=True).count()\<close>,
  \<^verbatim>\<open>get_songs\<close> yields \<^verbatim>\<open>_song_to_dict(s)\<close> for each row of
  \<^verbatim>\<open>query(Song).filter_by(fingerprinted=True).all()\<close>, and \<^verbatim>\<open>get_song_by_id\<close> returns
  \<^verbatim>\<open>_song_to_dict(query(Song).get(sid))\<close>, each inside one \<^verbatim>\<open>session_scope\<close>.
\<close>

definition get_num_songs :: "store \<Rightarrow> (error + int) \<times> store" where
  "get_num_songs st =
     session_scope st (\<lambda>s. (Inr (int (length (filter fingerprinted (songs (view s))))), s))"

definition get_num_fingerprints :: "store \<Rightarrow> (error + int) \<times> store" where
  "get_num_fingerprints st =
     session_scope st (\<lambda>s. (Inr (int (length (fingerprints (view s)))), s))"

definition set_fingerprinted :: "int \<Rightarrow> song list \<Rightarrow> song list" where
  "set_fingerprinted sid rows =
     map (\<lambda>s. if song_id s = sid then s\<lparr>fingerprinted := True\<rparr> else s) rows"

text \<open>
  \<^verbatim>\<open>
  def set_song_fingerprinted(self, sid):
      if sid is None:
          logging.warning("set_song_fingerprinted(): sid is None")
      else:
          with self.session_scope() as session:
              song = session.query(Song).get(sid)
              song.fingerprinted = True
  \<close>
  With \<^verbatim>\<open>sid is None\<close> a warning is logged and no session is opened.  Otherwise the song is
  fetched by key and its flag assigned; when there is no such song, \<^verbatim>\<open>get\<close> gives
  \<^verbatim>\<open>None\<close> and the assignment raises \<^verbatim>\<open>AttributeError\<close>.
\<close>

definition set_song_fingerprinted :: "store \<Rightarrow> int option \<Rightarrow> (error + unit) \<times> store" where
  "set_song_fingerprinted st sid =
     (case sid of
        None \<Rightarrow> (Inr (), st\<lparr>log := log st @ [Warning ''set_song_fingerprinted(): sid is None'']\<rparr>)
      | Some i \<Rightarrow>
          session_scope st (\<lambda>s.
            (case query_get (songs (view s)) i of
               None \<Rightarrow> (Inl AttributeError, s)
             | Some song \<Rightarrow>
                 (Inr (), s\<lparr>view := (view s)\<lparr>songs := set_fingerprinted i (songs (view s))\<rparr>\<rparr>))))"

definition get_songs :: "store \<Rightarrow> (error + song_dict option list) \<times> store" where
  "get_songs st =
     session_scope st (\<lambda>s.
       (Inr (map (\<lambda>x. song_to_dict (Some x)) (filter fingerprinted (songs (view s)))), s))"

definition get_song_by_id :: "store \<Rightarrow> int \<Rightarrow> (error + song_dict option) \<times> store" where
  "get_song_by_id st sid =
     session_scope st (\<lambda>s. (Inr (song_to_dict (query_get (songs (view s)) sid)), s))"

text \<open>
  \<^verbatim>\<open>
  def insert_song(self, song_name, file_hash):
      with self.session_scope() as session:
          song = session.query(Song).filter_by(name=song_name).one_or_none()
          if song is not None:
              return song.song_id
          else:
              song = Song(name=song_name, file_sha1=file_hash)
              session.add(song)
              session.flush()
              return song.song_id
  \<close>
  The setter of \<^verbatim>\<open>file_sha1\<close> decodes the hash with \<^verbatim>\<open>bytes.fromhex\<close>; the flush assigns the
  next identifier; \<^verbatim>\<open>fingerprinted\<close> takes its default.
\<close>

definition insert_song :: "store \<Rightarrow> string \<Rightarrow> string \<Rightarrow> (error + int) \<times> store" where
  "insert_song st song_name file_hash =
     session_scope st (\<lambda>s.
       (case one_or_none (filter (\<lambda>x. name x = song_name) (songs (view s))) of
          Inl e \<Rightarrow> (Inl e, s)
        | Inr (Some song) \<Rightarrow> (Inr (song_id song), s)
        | Inr None \<Rightarrow>
            (case fromhex file_hash of
               None \<Rightarrow> (Inl ValueError, s)
             | Some b \<Rightarrow>
                 (let i = next_song_id (view s);
                      song = \<lparr>song_id = i, name = song_name, fingerprinted = False,
                              file_sha1_raw = b\<rparr>
                  in (Inr i, s\<lparr>view := (view s)\<lparr>songs := songs (view s) @ [song],
                                                  next_song_id := i + 1\<rparr>\<rparr>)))))"

text \<open>
  \<^verbatim>\<open>
  def insert_hashes(self, sid, hashes):
      with self.session_scope() as session:
          for h in hashes:
              fingerprint = Fingerprint(hash=h[0], song_id=sid, song_offset=int(h[1]))
              session.add(fingerprint)
  \<close>
  \<open>add_hashes\<close> is the loop.  The keyword arguments of \<^verbatim>\<open>Fingerprint(...)\<close> are evaluated
  first, so \<^verbatim>\<open>int(h[1])\<close> runs before the \<^verbatim>\<open>hash\<close> setter decodes \<^verbatim>\<open>h[0]\<close>.  The rows
  are written when the session commits.
\<close>

fun add_hashes :: "session \<Rightarrow> int \<Rightarrow> (string \<times> pynum) list \<Rightarrow> (error + unit) \<times> session" where
  "add_hashes s sid [] = (Inr (), s)"
| "add_hashes s sid (h # hs) =
     (case py_int (snd h) of
        Inl e \<Rightarrow> (Inl e, s)
      | Inr off \<Rightarrow>
          (case fromhex (fst h) of
             None \<Rightarrow> (Inl ValueError, s)
           | Some b \<Rightarrow>
               add_hashes
                 (s\<lparr>new := new s @ [\<lparr>hash_raw = b, fp_song_id = sid, song_offset = off\<rparr>]\<rparr>)
                 sid hs))"

definition insert_hashes ::
  "store \<Rightarrow> int \<Rightarrow> (string \<times> pynum) list \<Rightarrow> (error + unit) \<times> store" where
  "insert_hashes st sid hashes = session_scope st (\<lambda>s. add_hashes s sid hashes)"

text \<open>
  \<^verbatim>\<open>
  def return_matches(self, hashes):
      with self.session_scope() as session:
          mapper = {}
          for hash, offset in hashes:
              mapper[bytes.fromhex(hash)] = offset
          fingerprints = []
          for split in self._grouper(mapper.keys(), 999):
              fingerprints += session.query(Fingerprint).filter(Fingerprint._hash.in_(split)).all()
          for f in fingerprints:
              yield (f.song_id, f.song_offset-mapper[f._hash])
  \<close>
  The result is the list of the pairs the generator yields when it is run to its end.

  \<open>build_mapper\<close> is the first loop.  A Python dictionary keeps its keys in the order they
  were first inserted and overwrites the value of a key that is assigned again, which is
  \<open>AList.update\<close> on an association list.
\<close>

fun build_mapper ::
  "(string \<times> int) list \<Rightarrow> (bytes \<times> int) list \<Rightarrow> error + (bytes \<times> int) list" where
  "build_mapper [] mapper = Inr mapper"
| "build_mapper (h # hs) mapper =
     (case fromhex (fst h) of
        None \<Rightarrow> Inl ValueError
      | Some b \<Rightarrow> build_mapper hs (AList.update b (snd h) mapper))"

text \<open>\<^verbatim>\<open>query(Fingerprint).filter(Fingerprint._hash.in_(split)).all()\<close>\<close>

definition select_in :: "session \<Rightarrow> bytes list \<Rightarrow> fingerprint list \<times> session" where
  "select_in s split =
     (filter (\<lambda>f. hash_raw f \<in> set split) (fingerprints (view s)),
      s\<lparr>trail := trail s @ [Select_in split]\<rparr>)"

text \<open>The second loop: one lookup for each group, the rows appended to \<^verbatim>\<open>fingerprints\<close>.\<close>

fun run_lookups ::
  "session \<Rightarrow> bytes list list \<Rightarrow> fingerprint list \<Rightarrow> fingerprint list \<times> session" where
  "run_lookups s [] fps = (fps, s)"
| "run_lookups s (split # splits) fps =
     (case select_in s split of (rows, s') \<Rightarrow> run_lookups s' splits (fps @ rows))"

text \<open>
  The third loop: one pair for each row; \<^verbatim>\<open>mapper[f._hash]\<close> raises \<^verbatim>\<open>KeyError\<close> on a key
  that is not there.
\<close>

fun emit :: "(bytes \<times> int) list \<Rightarrow> fingerprint list \<Rightarrow> error + (int \<times> int) list" where
  "emit mapper [] = Inr []"
| "emit mapper (f # fs) =
     (case map_of mapper (hash_raw f) of
        None \<Rightarrow> Inl KeyError
      | Some off \<Rightarrow>
          (case emit mapper fs of
             Inl e \<Rightarrow> Inl e
           | Inr out \<Rightarrow> Inr ((fp_song_id f, song_offset f - off) # out)))"

definition return_matches ::
  "store \<Rightarrow> (string \<times> int) list \<Rightarrow> (error + (int \<times> int) list) \<times> store" where
  "return_matches st hashes =
     session_scope st (\<lambda>s.
       (case build_mapper hashes [] of
          Inl e \<Rightarrow> (Inl e, s)
        | Inr mapper \<Rightarrow>
            (case run_lookups s (grouper (map fst mapper) 999) [] of
               (fps, s') \<Rightarrow> (emit mapper fps, s'))))"

section \<open>Notions the statements use\<close>

text \<open>The uppercase rendering of a byte string, digit by digit.\<close>

definition hexdigit_upper :: "nat \<Rightarrow> char" where
  "hexdigit_upper n = (if n < 10 then char_of (48 + n) else char_of (55 + n))"

definition hex_upper :: "bytes \<Rightarrow> string" where
  "hex_upper bs =
     concat (map (\<lambda>b. [hexdigit_upper (unat b div 16), hexdigit_upper (unat b mod 16)]) bs)"

text \<open>The store with the song row \<open>S\<close> taken out of the table.\<close>

definition without_song :: "song \<Rightarrow> store \<Rightarrow> store" where
  "without_song S st = st\<lparr>db := (db st)\<lparr>songs := removeAll S (songs (db st))\<rparr>\<rparr>"

text \<open>
  The offset of the last pair of the probe whose hash decodes to \<open>b\<close>, if there is one.
\<close>

definition last_offset :: "(string \<times> int) list \<Rightarrow> bytes \<Rightarrow> int option" where
  "last_offset hashes b =
     (let ps = filter (\<lambda>h. fromhex (fst h) = Some b) hashes
      in if ps = [] then None else Some (snd (last ps)))"

text \<open>The pair emitted for a row, and the rows a list of lookups brings back.\<close>

definition pair_of :: "(bytes \<times> int) list \<Rightarrow> fingerprint \<Rightarrow> int \<times> int" where
  "pair_of mapper f = (fp_song_id f, song_offset f - the (map_of mapper (hash_raw f)))"

definition found :: "database \<Rightarrow> bytes list list \<Rightarrow> fingerprint list" where
  "found d splits = concat (map (\<lambda>sp. filter (\<lambda>f. hash_raw f \<in> set sp) (fingerprints d)) splits)"

text \<open>
  What a probe is expected to yield: for each stored row with a nonempty hash that some
  pair of the probe decodes to, the song and the stored offset minus the offset of the
  last such pair.
\<close>

definition expected :: "fingerprint list \<Rightarrow> (string \<times> int) list \<Rightarrow> (int \<times> int) multiset" where
  "expected rows hashes =
     {# (fp_song_id f, song_offset f - the (last_offset hashes (hash_raw f))).
        f \<in># {# f \<in># mset rows. hash_raw f \<noteq> [] \<and> last_offset hashes (hash_raw f) \<noteq> None #} #}"

section \<open>Example data\<close>

definition empty_db :: database where
  "empty_db = \<lparr>songs = [], fingerprints = [], next_song_id = 1, foreign_keys = True\<rparr>"

definition orphan_row :: fingerprint where
  "orphan_row = \<lparr>hash_raw = [1], fp_song_id = 1, song_offset = 0\<rparr>"

definition song1 :: song where
  "song1 = \<lparr>song_id = 1, name = ''a'', fingerprinted = True, file_sha1_raw = replicate 20 171\<rparr>"

definition song2 :: song where
  "song2 = \<lparr>song_id = 2, name = ''b'', fingerprinted = False, file_sha1_raw = replicate 20 18\<rparr>"

definition dict1 :: song_dict where
  "dict1 = \<lparr>d_song_id = 1, d_song_name = ''a'', d_fingerprinted = 1,
            d_file_sha1 = ''ABABABABABABABABABABABABABABABABABABABAB''\<rparr>"

definition store1 :: store where
  "store1 =
     \<lparr>db = \<lparr>songs = [song1, song2], fingerprints = [], next_song_id = 3, foreign_keys = True\<rparr>,
      log = []\<rparr>"

definition row_h :: fingerprint where
  "row_h = \<lparr>hash_raw = [171, 205], fp_song_id = 1, song_offset = 9\<rparr>"

definition row_e :: fingerprint where
  "row_e = \<lparr>hash_raw = [], fp_song_id = 1, song_offset = 7\<rparr>"

definition store2 :: store where
  "store2 =
     \<lparr>db = \<lparr>songs = [song1, song2], fingerprints = [row_h, row_e], next_song_id = 3,
             foreign_keys = True\<rparr>,
      log = []\<rparr>"

declare zip_longest.simps [simp del]

section \<open>Hexadecimal text\<close>

lemma hex_value_hexdigit: "n < 16 \<Longrightarrow> hex_value (hexdigit n) = Some n"
  by (auto simp: hex_value_def hexdigit_def Let_def)

lemma not_isspace_hexdigit: "n < 16 \<Longrightarrow> \<not> isspace (hexdigit n)"
  by (auto simp: isspace_def hexdigit_def Let_def)

lemma unat_byte_div: "unat (b :: byte) div 16 < 16"
  using unsigned_less [of b, where ?'a = nat] by simp

lemma fromhex_hex_append: "fromhex (hex_of_byte b @ cs) = map_option ((#) b) (fromhex cs)"
  using unat_byte_div [of b]
  by (simp add: hex_of_byte_def hex_value_hexdigit not_isspace_hexdigit)

text \<open>Decoding what \<open>hex\<close> wrote gives the bytes back.\<close>

lemma fromhex_hex: "fromhex (hex bs) = Some bs"
  by (induction bs) (simp_all add: hex_def fromhex_hex_append)

section \<open>The scoped session\<close>

lemma flush_trail: "flush s = Inr s' \<Longrightarrow> trail s' = trail s"
  by (auto simp: flush_def split: sum.splits)

lemma flush_nothing: "new s = [] \<Longrightarrow> flush s = Inr s"
  by (simp add: flush_def)

lemma session_scope_read:
  "session_scope st (\<lambda>s. (Inr (f s), s)) =
     (Inr (f \<lparr>view = db st, new = [], trail = [Session]\<rparr>),
      st\<lparr>log := log st @ [Session, Commit, Close]\<rparr>)"
  by (simp add: session_scope_def flush_nothing)

lemma session_scope_raise:
  "body \<lparr>view = db st, new = [], trail = [Session]\<rparr> = (Inl e, s) \<Longrightarrow>
   session_scope st body = (Inl e, st\<lparr>log := log st @ trail s @ [Rollback, Close]\<rparr>)"
  by (simp add: session_scope_def)

text \<open>
  Claim C7.  Let the body be run on the fresh session.  If it returns \<open>a\<close>, \<^verbatim>\<open>commit\<close> is
  called: when the commit goes through, the scope returns \<open>a\<close> and the data is what the
  session wrote; when the commit itself raises \<open>e\<close>, that is handled like any exception.
  If the body (or the commit) raises \<open>e\<close>, \<^verbatim>\<open>rollback\<close> is called, the data is what it was
  before, and the same \<open>e\<close> is raised again.  On every path the last call is \<^verbatim>\<open>close\<close>.
\<close>

theorem session_scope_commit_rollback_close:
  fixes body :: "session \<Rightarrow> (error + 'a) \<times> session"
  shows "(body \<lparr>view = db st, new = [], trail = [Session]\<rparr> = (Inr a, s) \<longrightarrow>
          flush s = Inr s' \<longrightarrow>
            session_scope st body =
              (Inr a, \<lparr>db = view s', log = log st @ trail s @ [Commit, Close]\<rparr>))
       \<and> (body \<lparr>view = db st, new = [], trail = [Session]\<rparr> = (Inr a, s) \<longrightarrow>
          flush s = Inl e \<longrightarrow>
            session_scope st body =
              (Inl e, \<lparr>db = db st, log = log st @ trail s @ [Commit, Rollback, Close]\<rparr>))
       \<and> (body \<lparr>view = db st, new = [], trail = [Session]\<rparr> = (Inl e, s) \<longrightarrow>
            session_scope st body =
              (Inl e, \<lparr>db = db st, log = log st @ trail s @ [Rollback, Close]\<rparr>))
       \<and> last (log (snd (session_scope st body))) = Close"
  by (auto simp: session_scope_def flush_trail split: prod.splits sum.splits)

theorem session_scope_commit_rollback_close_witness:
  "session_scope \<lparr>db = empty_db, log = []\<rparr> (\<lambda>s. (Inr (), s))
     = (Inr (), \<lparr>db = empty_db, log = [Session, Commit, Close]\<rparr>)
   \<and> session_scope \<lparr>db = empty_db, log = []\<rparr> (\<lambda>s. (Inr (), s\<lparr>new := [orphan_row]\<rparr>))
     = (Inl IntegrityError, \<lparr>db = empty_db, log = [Session, Commit, Rollback, Close]\<rparr>)
   \<and> session_scope \<lparr>db = empty_db, log = []\<rparr> (\<lambda>s. (Inl KeyError :: error + unit, s))
     = (Inl KeyError, \<lparr>db = empty_db, log = [Session, Rollback, Close]\<rparr>)"
proof -
  let ?st = "\<lparr>db = empty_db, log = []\<rparr>"
  let ?s0 = "\<lparr>view = empty_db, new = [], trail = [Session]\<rparr>"
  have f1: "flush ?s0 = Inr ?s0"
    by (simp add: flush_def)
  have f2: "flush (?s0\<lparr>new := [orphan_row]\<rparr>) = Inl IntegrityError"
    by (simp add: flush_def empty_db_def orphan_row_def)
  from session_scope_commit_rollback_close
         [of "\<lambda>s. (Inr (), s)" ?st "()" ?s0 ?s0]
       session_scope_commit_rollback_close
         [of "\<lambda>s. (Inr (), s\<lparr>new := [orphan_row]\<rparr>)" ?st "()"
             "?s0\<lparr>new := [orphan_row]\<rparr>" _ IntegrityError]
       session_scope_commit_rollback_close
         [of "\<lambda>s. (Inl KeyError :: error + unit, s)" ?st _ ?s0 _ KeyError]
       f1 f2
  show ?thesis by simp
qed

section \<open>Songs\<close>

lemma upper_hexdigit: "n < 16 \<Longrightarrow> upper_char (hexdigit n) = hexdigit_upper n"
  by (auto simp: upper_char_def hexdigit_def hexdigit_upper_def Let_def)

lemma upper_hex: "upper (hex bs) = hex_upper bs"
  using unat_byte_div
  by (induction bs) (simp_all add: upper_def hex_def hex_upper_def hex_of_byte_def upper_hexdigit)

lemma query_get_Some: "query_get rows sid = Some s \<Longrightarrow> s \<in> set rows \<and> song_id s = sid"
  by (auto simp: query_get_def find_Some_iff)

lemma query_get_distinct:
  "distinct (map song_id rows) \<Longrightarrow> s \<in> set rows \<Longrightarrow> query_get rows (song_id s) = Some s"
  by (induction rows) (auto simp: query_get_def)

lemma get_song_by_id_store1:
  "get_song_by_id store1 1 = (Inr (Some dict1), store1\<lparr>log := [Session, Commit, Close]\<rparr>)"
  by code_simp

lemma get_songs_store1:
  "get_songs store1 = (Inr [Some dict1], store1\<lparr>log := [Session, Commit, Close]\<rparr>)"
  by code_simp

text \<open>
  Claim C5.  With no identifier, \<^verbatim>\<open>set_song_fingerprinted\<close> logs a warning and returns, and
  nothing else changes.  With an identifier that no song has, it does not return: the
  assignment to the missing object raises \<^verbatim>\<open>AttributeError\<close>, the session is rolled back
  and closed, no warning is logged, and the stored data stays as it was.
\<close>

theorem set_song_fingerprinted_none_or_missing:
  "set_song_fingerprinted st None =
     (Inr (), st\<lparr>log := log st @ [Warning ''set_song_fingerprinted(): sid is None'']\<rparr>)
   \<and> (query_get (songs (db st)) i = None \<longrightarrow>
        set_song_fingerprinted st (Some i) =
          (Inl AttributeError, st\<lparr>log := log st @ [Session, Rollback, Close]\<rparr>))"
  by (simp add: set_song_fingerprinted_def session_scope_def)

theorem set_song_fingerprinted_none_or_missing_witness:
  "query_get (songs (db store1)) 7 = None
   \<and> set_song_fingerprinted store1 (Some 7) =
       (Inl AttributeError, store1\<lparr>log := [Session, Rollback, Close]\<rparr>)"
proof -
  have h: "query_get (songs (db store1)) 7 = None"
    by (simp add: query_get_def store1_def song1_def song2_def)
  have l: "log store1 = []" by (simp add: store1_def)
  from set_song_fingerprinted_none_or_missing [of store1 7] h l show ?thesis by simp
qed

text \<open>
  Claim C4, as the code has it.  The \<^verbatim>\<open>file_sha1\<close> entry of every record that
  \<^verbatim>\<open>get_song_by_id\<close> or \<^verbatim>\<open>get_songs\<close> hands out is the uppercase hexadecimal rendering of
  the stored bytes: \<^verbatim>\<open>_song_to_dict\<close> applies \<^verbatim>\<open>upper()\<close> to what the property returns.
\<close>

theorem file_sha1_uppercase:
  "(get_song_by_id st sid = (Inr (Some d), st') \<longrightarrow>
      (\<exists>s\<in>set (songs (db st)). song_id s = sid \<and> d_file_sha1 d = hex_upper (file_sha1_raw s)))
   \<and> (get_songs st = (Inr ds, st') \<longrightarrow>
      map (map_option d_file_sha1) ds =
        map (\<lambda>s. Some (hex_upper (file_sha1_raw s))) (filter fingerprinted (songs (db st))))"
  by (auto simp: get_song_by_id_def get_songs_def session_scope_read song_to_dict_def
        file_sha1_def upper_hex dest: query_get_Some split: option.splits)

theorem file_sha1_uppercase_witness:
  "get_song_by_id store1 1 = (Inr (Some dict1), store1\<lparr>log := [Session, Commit, Close]\<rparr>)
   \<and> get_songs store1 = (Inr [Some dict1], store1\<lparr>log := [Session, Commit, Close]\<rparr>)
   \<and> d_file_sha1 dict1 = hex_upper (file_sha1_raw song1)
   \<and> [Some (d_file_sha1 dict1)] = [Some (hex_upper (file_sha1_raw song1))]"
  using file_sha1_uppercase
          [of store1 1 dict1 "store1\<lparr>log := [Session, Commit, Close]\<rparr>" "[Some dict1]"]
        get_song_by_id_store1 get_songs_store1
  by (auto simp: store1_def song1_def song2_def)

text \<open>
  The claim as the specification words it fails: song 1 stores twenty bytes \<open>0xab\<close>, its
  lowercase rendering is forty letters \<open>ab\<close>, and the record handed out holds them in
  uppercase.
\<close>

theorem file_sha1_lowercase_counterexample:
  "fst (get_song_by_id store1 1) =
     Inr (Some \<lparr>d_song_id = 1, d_song_name = ''a'', d_fingerprinted = 1,
                d_file_sha1 = ''ABABABABABABABABABABABABABABABABABABABAB''\<rparr>)
   \<and> hex (file_sha1_raw song1) = ''abababababababababababababababababababab''"
  by code_simp

lemma filter_removeAll_unflagged:
  "\<not> P S \<Longrightarrow> filter P (removeAll S xs) = filter P xs"
  by (induction xs) auto

text \<open>
  Claim C8.  Let \<open>S\<close> be a stored song whose flag is false, in a table whose primary key
  \<^verbatim>\<open>song_id\<close> is unique.  Then no record \<^verbatim>\<open>get_songs\<close> yields carries the identifier of \<open>S\<close>,
  and the listing is what it would be without the row; \<^verbatim>\<open>get_num_songs\<close> counts the
  flagged songs only, the same number as without the row; and \<^verbatim>\<open>get_song_by_id\<close> at the
  identifier of \<open>S\<close> returns the record of \<open>S\<close>, not \<^verbatim>\<open>None\<close>.
\<close>

theorem unfingerprinted_song_visibility:
  assumes "S \<in> set (songs (db st))" and "\<not> fingerprinted S"
    and "distinct (map song_id (songs (db st)))"
  shows "\<exists>ds n. fst (get_songs st) = Inr ds
           \<and> (\<forall>d. Some d \<in> set ds \<longrightarrow> d_song_id d \<noteq> song_id S)
           \<and> fst (get_songs (without_song S st)) = Inr ds
           \<and> fst (get_num_songs st) = Inr n
           \<and> n = int (card {x \<in> set (songs (db st)). fingerprinted x})
           \<and> fst (get_num_songs (without_song S st)) = Inr n
           \<and> fst (get_song_by_id st (song_id S)) =
               Inr (Some \<lparr>d_song_id = song_id S, d_song_name = name S, d_fingerprinted = 0,
                          d_file_sha1 = upper (hex (file_sha1_raw S))\<rparr>)"
proof -
  let ?rows = "songs (db st)"
  have d: "distinct ?rows" using assms(3) by (simp add: distinct_map)
  have ids: "\<And>x. x \<in> set ?rows \<Longrightarrow> fingerprinted x \<Longrightarrow> song_id x \<noteq> song_id S"
    using assms by (metis distinct_map inj_onD)
  have card: "length (filter fingerprinted ?rows) = card {x \<in> set ?rows. fingerprinted x}"
    using d by (simp add: distinct_length_filter Int_def conj_commute)
  show ?thesis
    using assms(1,2) ids card
    by (auto simp: get_songs_def get_num_songs_def get_song_by_id_def session_scope_read
          without_song_def filter_removeAll_unflagged query_get_distinct [OF assms(3)]
          song_to_dict_def file_sha1_def)
qed


theorem unfingerprinted_song_visibility_witness:
  "song2 \<in> set (songs (db store1)) \<and> \<not> fingerprinted song2
   \<and> distinct (map song_id (songs (db store1)))
   \<and> fst (get_num_songs store1) = Inr 1
   \<and> fst (get_num_songs (without_song song2 store1)) = Inr 1
   \<and> fst (get_song_by_id store1 2) =
        Inr (Some \<lparr>d_song_id = 2, d_song_name = ''b'', d_fingerprinted = 0,
                   d_file_sha1 = upper (hex (file_sha1_raw song2))\<rparr>)"
proof -
  have h1: "song2 \<in> set (songs (db store1))" by (simp add: store1_def)
  have h2: "\<not> fingerprinted song2" by (simp add: song2_def)
  have h3: "distinct (map song_id (songs (db store1)))"
    by (simp add: store1_def song1_def song2_def)
  have c: "card {x \<in> set (songs (db store1)). fingerprinted x} = 1"
  proof -
    have "{x \<in> set (songs (db store1)). fingerprinted x} = {song1}"
      by (auto simp: store1_def song1_def song2_def)
    then show ?thesis by simp
  qed
  from unfingerprinted_song_visibility [OF h1 h2 h3] h1 h2 h3 c
  show ?thesis by (auto simp: song2_def)
qed

section \<open>Writing fingerprints\<close>

lemma insert_rows_appends:
  "insert_rows rows d = Inr d' \<Longrightarrow>
     d' = d\<lparr>fingerprints := fingerprints d @ rows\<rparr>"
proof (induction rows arbitrary: d)
  case Nil
  then show ?case by simp
next
  case (Cons f fs)
  from Cons.prems have "insert_rows fs (d\<lparr>fingerprints := fingerprints d @ [f]\<rparr>) = Inr d'"
    by (simp split: if_splits)
  from Cons.IH [OF this] show ?case by simp
qed

lemma add_hashes_rows:
  "add_hashes s sid hs = (Inr (), s') \<Longrightarrow>
     \<exists>rows. s' = s\<lparr>new := new s @ rows\<rparr>
       \<and> list_all2 (\<lambda>h f. py_int (snd h) = Inr (song_offset f)
                          \<and> fromhex (fst h) = Some (hash_raw f) \<and> fp_song_id f = sid) hs rows"
proof (induction hs arbitrary: s)
  case Nil
  then show ?case by simp
next
  case (Cons h hs)
  from Cons.prems obtain off b where
    off: "py_int (snd h) = Inr off" and b: "fromhex (fst h) = Some b" and
    rest: "add_hashes (s\<lparr>new := new s @ [\<lparr>hash_raw = b, fp_song_id = sid, song_offset = off\<rparr>]\<rparr>)
             sid hs = (Inr (), s')"
    by (auto split: sum.splits option.splits)
  from Cons.IH [OF rest] obtain rows where
    r: "s' = s\<lparr>new := new s @ [\<lparr>hash_raw = b, fp_song_id = sid, song_offset = off\<rparr>] @ rows\<rparr>"
    and l: "list_all2 (\<lambda>h f. py_int (snd h) = Inr (song_offset f)
                          \<and> fromhex (fst h) = Some (hash_raw f) \<and> fp_song_id f = sid) hs rows"
    by auto
  show ?case
    by (rule exI [of _ "\<lparr>hash_raw = b, fp_song_id = sid, song_offset = off\<rparr> # rows"])
       (simp add: r l off b)
qed

text \<open>
  Claim C9, as the code has it.  When \<^verbatim>\<open>insert_hashes\<close> returns, the table has grown by one
  row for each pair, in order, for the given song; the offset stored is \<^verbatim>\<open>int()\<close> of the
  offset given, so an integer offset is stored as it is, whatever its sign.
\<close>

theorem insert_hashes_int_offsets:
  assumes "insert_hashes st sid hashes = (Inr (), st')"
  shows "\<exists>rows. db st' = (db st)\<lparr>fingerprints := fingerprints (db st) @ rows\<rparr>
           \<and> list_all2 (\<lambda>h f. py_int (snd h) = Inr (song_offset f)
                               \<and> (\<forall>i. snd h = PyInt i \<longrightarrow> song_offset f = i)
                               \<and> fromhex (fst h) = Some (hash_raw f) \<and> fp_song_id f = sid)
                 hashes rows"
proof -
  let ?s0 = "\<lparr>view = db st, new = [], trail = [Session]\<rparr>"
  from assms obtain s s' where
    body: "add_hashes ?s0 sid hashes = (Inr (), s)" and fl: "flush s = Inr s'" and
    st': "db st' = view s'"
    by (auto simp: insert_hashes_def session_scope_def split: prod.splits sum.splits)
  from add_hashes_rows [OF body] obtain rows where
    s: "s = ?s0\<lparr>new := rows\<rparr>" and
    l: "list_all2 (\<lambda>h f. py_int (snd h) = Inr (song_offset f)
                          \<and> fromhex (fst h) = Some (hash_raw f) \<and> fp_song_id f = sid) hashes rows"
    by auto
  from fl s have "view s' = (db st)\<lparr>fingerprints := fingerprints (db st) @ rows\<rparr>"
    by (auto simp: flush_def split: sum.splits dest: insert_rows_appends)
  moreover from l have "list_all2 (\<lambda>h f. py_int (snd h) = Inr (song_offset f)
                               \<and> (\<forall>i. snd h = PyInt i \<longrightarrow> song_offset f = i)
                               \<and> fromhex (fst h) = Some (hash_raw f) \<and> fp_song_id f = sid)
                 hashes rows"
    by (rule list_all2_mono) auto
  ultimately show ?thesis using st' by auto
qed

theorem insert_hashes_int_offsets_witness:
  "insert_hashes store1 1 [(''ab'', PyInt (- 3)), (''cd'', PyFloat (- 5) (- 1))] =
     (Inr (), \<lparr>db = (db store1)\<lparr>fingerprints :=
                  [\<lparr>hash_raw = [171], fp_song_id = 1, song_offset = - 3\<rparr>,
                   \<lparr>hash_raw = [205], fp_song_id = 1, song_offset = - 2\<rparr>]\<rparr>,
               log = [Session, Commit, Close]\<rparr>)
   \<and> py_int (PyInt (- 3)) = Inr (- 3) \<and> py_int (PyFloat (- 5) (- 1)) = Inr (- 2)"
proof -
  have e: "insert_hashes store1 1 [(''ab'', PyInt (- 3)), (''cd'', PyFloat (- 5) (- 1))] =
     (Inr (), \<lparr>db = (db store1)\<lparr>fingerprints :=
                  [\<lparr>hash_raw = [171], fp_song_id = 1, song_offset = - 3\<rparr>,
                   \<lparr>hash_raw = [205], fp_song_id = 1, song_offset = - 2\<rparr>]\<rparr>,
               log = [Session, Commit, Close]\<rparr>)"
    by code_simp
  from insert_hashes_int_offsets [OF e] e show ?thesis
    by (auto simp: list_all2_Cons1)
qed

text \<open>
  The claim as the specification words it fails: the offset \<open>-3\<close> is stored as \<open>-3\<close>.
\<close>

theorem insert_hashes_negative_counterexample:
  "insert_hashes store1 1 [(''ab'', PyInt (- 3))] =
     (Inr (), \<lparr>db = (db store1)\<lparr>fingerprints :=
                  [\<lparr>hash_raw = [171], fp_song_id = 1, song_offset = - 3\<rparr>]\<rparr>,
               log = [Session, Commit, Close]\<rparr>)"
  by code_simp

section \<open>Registering songs\<close>

lemma one_or_none_cases:
  "one_or_none xs = Inr None \<longleftrightarrow> xs = []"
  "one_or_none xs = Inr (Some x) \<longleftrightarrow> xs = [x]"
  "one_or_none xs = Inl e \<longleftrightarrow> e = MultipleResultsFound \<and> 2 \<le> length xs"
  by (cases xs rule: one_or_none.cases; auto)+

text \<open>
  Claim C6.  Where the file hash is hexadecimal text and at most one stored song has the
  name, \<^verbatim>\<open>insert_song\<close> returns an identifier.  Whenever a call returns \<open>sid\<close>, a second
  call with the same name returns \<open>sid\<close> again and leaves the stored data as the first
  call left it, whatever file hash the second call is given: the lookup is by name alone.
\<close>

theorem insert_song_idempotent:
  "(fromhex file_hash \<noteq> None
      \<and> length (filter (\<lambda>x. name x = song_name) (songs (db st))) \<le> 1 \<longrightarrow>
      (\<exists>sid st'. insert_song st song_name file_hash = (Inr sid, st')))
   \<and> (insert_song st song_name file_hash = (Inr sid, st') \<longrightarrow>
        fst (insert_song st' song_name other_hash) = Inr sid
        \<and> db (snd (insert_song st' song_name other_hash)) = db st'
        \<and> (\<exists>s. filter (\<lambda>x. name x = song_name) (songs (db st')) = [s] \<and> song_id s = sid))"
proof (intro conjI impI)
  assume "fromhex file_hash \<noteq> None
      \<and> length (filter (\<lambda>x. name x = song_name) (songs (db st))) \<le> 1"
  then show "\<exists>sid st'. insert_song st song_name file_hash = (Inr sid, st')"
    by (cases "filter (\<lambda>x. name x = song_name) (songs (db st))" rule: one_or_none.cases)
       (auto simp: insert_song_def session_scope_def flush_nothing Let_def)
next
  assume a: "insert_song st song_name file_hash = (Inr sid, st')"
  then have one: "\<exists>s. filter (\<lambda>x. name x = song_name) (songs (db st')) = [s] \<and> song_id s = sid"
    by (cases "filter (\<lambda>x. name x = song_name) (songs (db st))" rule: one_or_none.cases)
       (auto simp: insert_song_def session_scope_def flush_nothing Let_def
             split: option.splits)
  then show "\<exists>s. filter (\<lambda>x. name x = song_name) (songs (db st')) = [s] \<and> song_id s = sid" .
  from one show "fst (insert_song st' song_name other_hash) = Inr sid"
    by (auto simp: insert_song_def session_scope_def flush_nothing)
  from one show "db (snd (insert_song st' song_name other_hash)) = db st'"
    by (auto simp: insert_song_def session_scope_def flush_nothing)
qed

theorem insert_song_idempotent_witness:
  "fromhex ''00ff'' \<noteq> None
   \<and> length (filter (\<lambda>x. name x = ''c'') (songs (db store1))) \<le> 1
   \<and> fst (insert_song store1 ''c'' ''00ff'') = Inr 3
   \<and> fst (insert_song (snd (insert_song store1 ''c'' ''00ff'')) ''c'' ''00ff'') = Inr 3
   \<and> fst (insert_song (snd (insert_song store1 ''c'' ''00ff'')) ''c'' ''not hex'') = Inr 3
   \<and> db (snd (insert_song (snd (insert_song store1 ''c'' ''00ff'')) ''c'' ''00ff''))
       = db (snd (insert_song store1 ''c'' ''00ff''))"
proof -
  have h1: "fromhex ''00ff'' \<noteq> None" by code_simp
  have h2: "length (filter (\<lambda>x. name x = ''c'') (songs (db store1))) \<le> 1"
    by (simp add: store1_def song1_def song2_def)
  have e: "fst (insert_song store1 ''c'' ''00ff'') = Inr 3" by code_simp
  have p: "insert_song store1 ''c'' ''00ff'' = (Inr 3, snd (insert_song store1 ''c'' ''00ff''))"
    using e by (metis prod.collapse)
  from insert_song_idempotent [of "''00ff''" "''c''" store1 3 _ "''00ff''"]
       insert_song_idempotent [of "''00ff''" "''c''" store1 3 _ "''not hex''"]
       h1 h2 e p
  show ?thesis by simp
qed

section \<open>Matching\<close>

lemma last_offset_Nil [simp]: "last_offset [] b = None"
  by (simp add: last_offset_def)

lemma last_offset_None_iff:
  "last_offset hs b = None \<longleftrightarrow> (\<forall>h\<in>set hs. fromhex (fst h) \<noteq> Some b)"
  by (simp add: last_offset_def Let_def filter_empty_conv)

lemma last_offset_append:
  "last_offset (xs @ ys) b =
     (case last_offset ys b of Some off \<Rightarrow> Some off | None \<Rightarrow> last_offset xs b)"
  by (simp add: last_offset_def Let_def)

lemma last_offset_Cons:
  "last_offset (h # hs) b =
     (case last_offset hs b of
        Some off \<Rightarrow> Some off
      | None \<Rightarrow> if fromhex (fst h) = Some b then Some (snd h) else None)"
  by (simp add: last_offset_def Let_def)

lemma build_mapper_lookup:
  "build_mapper hs m = Inr m' \<Longrightarrow>
     map_of m' b = (case last_offset hs b of Some off \<Rightarrow> Some off | None \<Rightarrow> map_of m b)"
proof (induction hs arbitrary: m)
  case Nil
  then show ?case by simp
next
  case (Cons h hs)
  from Cons.prems obtain k where k: "fromhex (fst h) = Some k"
    and rest: "build_mapper hs (AList.update k (snd h) m) = Inr m'"
    by (auto split: option.splits)
  from Cons.IH [OF rest] k show ?case
    by (auto simp: last_offset_Cons update_conv' split: option.splits)
qed

lemma build_mapper_distinct:
  "build_mapper hs m = Inr m' \<Longrightarrow> distinct (map fst m) \<Longrightarrow> distinct (map fst m')"
  by (induction hs arbitrary: m) (auto simp: distinct_update split: option.splits)

lemma build_mapper_decodes:
  "build_mapper hs m = Inr m' \<Longrightarrow> \<forall>h\<in>set hs. fromhex (fst h) \<noteq> None"
  by (induction hs arbitrary: m) (auto split: option.splits)

lemma build_mapper_total:
  "\<forall>h\<in>set hs. fromhex (fst h) \<noteq> None \<Longrightarrow> \<exists>m'. build_mapper hs m = Inr m'"
  by (induction hs arbitrary: m) (auto split: option.splits)

lemma build_mapper_error: "build_mapper hs m = Inl e \<Longrightarrow> e = ValueError"
  by (induction hs arbitrary: m) (auto split: option.splits)

lemma build_mapper_keys_from:
  "build_mapper hs m = Inr m' \<Longrightarrow>
     fst ` set m' = fst ` set m \<union> {b. \<exists>h\<in>set hs. fromhex (fst h) = Some b}"
proof (induction hs arbitrary: m)
  case Nil
  then show ?case by simp
next
  case (Cons h hs)
  from Cons.prems obtain k where k: "fromhex (fst h) = Some k"
    and rest: "build_mapper hs (AList.update k (snd h) m) = Inr m'"
    by (auto split: option.splits)
  from Cons.IH [OF rest] k show ?case
    by (auto simp: dom_update)
qed

lemma build_mapper_keys:
  "build_mapper hs [] = Inr m' \<Longrightarrow> fst ` set m' = {b. \<exists>h\<in>set hs. fromhex (fst h) = Some b}"
  by (drule build_mapper_keys_from) simp

lemma zip_longest_real:
  "0 < n \<Longrightarrow> concat (map (\<lambda>g. map the (filter (\<lambda>v. v \<noteq> None) g)) (zip_longest xs n)) = xs"
proof (induction xs n rule: zip_longest.induct)
  case (1 xs n)
  show ?case
  proof (cases "xs = []")
    case True
    then show ?thesis by (simp add: zip_longest.simps)
  next
    case False
    have "map the (filter (\<lambda>v. v \<noteq> None) (map Some (take n xs))) = take n xs"
      by (simp add: filter_map comp_def)
    with False 1 show ?thesis
      by (subst zip_longest.simps) (simp add: comp_def)
  qed
qed

lemma zip_longest_length:
  "g \<in> set (zip_longest xs n) \<Longrightarrow>
     length g = n \<and> filter (\<lambda>v. v \<noteq> None) g \<noteq> [] \<and> length (filter (\<lambda>v. v \<noteq> None) g) \<le> n"
proof (induction xs n arbitrary: g rule: zip_longest.induct)
  case (1 xs n)
  show ?case
  proof (cases "xs = [] \<or> n = 0")
    case True
    with "1.prems" show ?thesis by (simp add: zip_longest.simps)
  next
    case False
    with "1.prems" have "g = map Some (take n xs) @ replicate (n - length (take n xs)) None
        \<or> g \<in> set (zip_longest (drop n xs) n)"
      by (subst (asm) zip_longest.simps) auto
    then show ?thesis
    proof
      assume g: "g = map Some (take n xs) @ replicate (n - length (take n xs)) None"
      have "filter (\<lambda>v. v \<noteq> None) g = map Some (take n xs)"
        unfolding g by (simp add: filter_map comp_def)
      with False g show ?thesis by (cases xs) auto
    next
      assume "g \<in> set (zip_longest (drop n xs) n)"
      with False "1.IH" show ?thesis by blast
    qed
  qed
qed

lemma zip_longest_count:
  "0 < n \<Longrightarrow> length (zip_longest xs n) = (length xs + n - 1) div n"
proof (induction xs n rule: zip_longest.induct)
  case (1 xs n)
  show ?case
  proof (cases "xs = []")
    case True
    with 1 show ?thesis by (simp add: zip_longest.simps)
  next
    case False
    then have pos: "0 < length xs" by simp
    have step: "length (zip_longest xs n) = Suc (length (zip_longest (drop n xs) n))"
      using False "1.prems" by (subst zip_longest.simps) simp
    show ?thesis
    proof (cases "n \<le> length xs")
      case True
      have ih: "length (zip_longest (drop n xs) n) = (length (drop n xs) + n - 1) div n"
        using "1.IH" False "1.prems" by blast
      have a: "length (drop n xs) + n - 1 = length xs - 1"
        using True by simp
      have b: "length xs + n - 1 = (length xs - 1) + n"
        using pos by arith
      have "(length xs - 1 + n) div n = Suc ((length xs - 1) div n)"
        using "1.prems" by (simp only: div_add_self2)
      with step ih a b show ?thesis by (simp only:)
    next
      case False
      then have "drop n xs = []" by simp
      moreover have "(length xs + n - 1) div n = 1"
      proof (rule div_nat_eqI)
        show "n * 1 \<le> length xs + n - 1" using pos by (cases xs) simp_all
        show "length xs + n - 1 < n * Suc 1" using False by simp
      qed
      ultimately show ?thesis using step by (simp add: zip_longest.simps)
    qed
  qed
qed

lemma filter_None_eq:
  "filter_None g = filter (\<lambda>b. b \<noteq> []) (map the (filter (\<lambda>v. v \<noteq> None) g))"
proof -
  have "truthy = (\<lambda>v. v \<noteq> None \<and> the v \<noteq> [])"
    by (rule ext) (case_tac v; simp)
  then show ?thesis
    by (simp add: filter_None_def filter_map comp_def conj_commute)
qed

lemma grouper_concat: "0 < n \<Longrightarrow> concat (grouper ks n) = filter (\<lambda>b. b \<noteq> []) ks"
proof -
  assume n: "0 < n"
  have "map filter_None gs =
          map (filter (\<lambda>b. b \<noteq> [])) (map (\<lambda>g. map the (filter (\<lambda>v. v \<noteq> None) g)) gs)" for gs
    by (induction gs) (simp_all only: list.map filter_None_eq)
  then have "concat (grouper ks n) =
          filter (\<lambda>b. b \<noteq> [])
            (concat (map (\<lambda>g. map the (filter (\<lambda>v. v \<noteq> None) g)) (zip_longest ks n)))"
    by (simp only: grouper_def filter_concat)
  with n show ?thesis by (simp only: zip_longest_real)
qed

lemma run_lookups_eq:
  "run_lookups s splits fps =
     (fps @ concat (map (\<lambda>sp. filter (\<lambda>f. hash_raw f \<in> set sp) (fingerprints (view s))) splits),
      s\<lparr>trail := trail s @ map Select_in splits\<rparr>)"
  by (induction splits arbitrary: s fps) (simp_all add: select_in_def)

lemma emit_eq:
  "\<forall>f\<in>set fps. hash_raw f \<in> fst ` set mapper \<Longrightarrow> emit mapper fps = Inr (map (pair_of mapper) fps)"
proof (induction fps)
  case Nil
  then show ?case by simp
next
  case (Cons f fps)
  then obtain off where "map_of mapper (hash_raw f) = Some off"
    by (cases "map_of mapper (hash_raw f)") (auto simp: map_of_eq_None_iff)
  with Cons show ?case by (simp add: pair_of_def)
qed

lemma found_keys:
  "f \<in> set (found d (grouper ks n)) \<Longrightarrow> 0 < n \<Longrightarrow> hash_raw f \<in> set ks \<and> hash_raw f \<noteq> []"
proof -
  assume a: "f \<in> set (found d (grouper ks n))" and n: "0 < n"
  then obtain sp where "sp \<in> set (grouper ks n)" "hash_raw f \<in> set sp"
    by (auto simp: found_def)
  then have "hash_raw f \<in> set (concat (grouper ks n))" by auto
  with n show ?thesis by (simp add: grouper_concat)
qed

lemma return_matches_eq:
  assumes "build_mapper hashes [] = Inr mapper"
  shows "return_matches st hashes =
           (Inr (map (pair_of mapper) (found (db st) (grouper (map fst mapper) 999))),
            st\<lparr>log := log st @ [Session] @ map Select_in (grouper (map fst mapper) 999)
                         @ [Commit, Close]\<rparr>)"
proof -
  have "\<forall>f\<in>set (found (db st) (grouper (map fst mapper) 999)). hash_raw f \<in> fst ` set mapper"
    using found_keys [of _ "db st" "map fst mapper" 999] by auto
  from emit_eq [OF this] assms show ?thesis
    by (simp add: return_matches_def session_scope_def run_lookups_eq found_def flush_def)
qed

lemma return_matches_raise:
  assumes "build_mapper hashes [] = Inl e"
  shows "return_matches st hashes =
           (Inl ValueError, st\<lparr>log := log st @ [Session, Rollback, Close]\<rparr>)"
  using assms build_mapper_error [OF assms]
  by (simp add: return_matches_def session_scope_def)

lemma filter_mset_disjoint_union:
  "A \<inter> B = {} \<Longrightarrow>
     filter_mset (\<lambda>f. h f \<in> A) M + filter_mset (\<lambda>f. h f \<in> B) M = filter_mset (\<lambda>f. h f \<in> A \<union> B) M"
  by (rule multiset_eqI) auto

lemma found_mset:
  "distinct (concat splits) \<Longrightarrow>
     mset (concat (map (\<lambda>sp. filter (\<lambda>f. h f \<in> set sp) rows) splits)) =
       filter_mset (\<lambda>f. h f \<in> set (concat splits)) (mset rows)"
proof (induction splits)
  case Nil
  then show ?case by simp
next
  case (Cons sp splits)
  then have dis: "set sp \<inter> set (concat splits) = {}" and d: "distinct (concat splits)"
    by auto
  from Cons.IH [OF d] filter_mset_disjoint_union [OF dis, of h "mset rows"]
  show ?case by simp
qed

lemma build_mapper_map_of:
  "build_mapper hashes [] = Inr mapper \<Longrightarrow> map_of mapper b = last_offset hashes b"
  by (drule build_mapper_lookup [where b = b]) (simp split: option.splits)

lemma mapper_key_iff:
  "build_mapper hashes [] = Inr mapper \<Longrightarrow>
     b \<in> fst ` set mapper \<longleftrightarrow> last_offset hashes b \<noteq> None"
  by (simp add: build_mapper_map_of [symmetric] map_of_eq_None_iff)

lemma found_grouper_mset:
  assumes "distinct ks"
  shows "mset (found d (grouper ks 999)) =
           {# f \<in># mset (fingerprints d). hash_raw f \<noteq> [] \<and> hash_raw f \<in> set ks #}"
proof -
  have c: "concat (grouper ks 999) = filter (\<lambda>b. b \<noteq> []) ks"
    by (rule grouper_concat) simp
  with assms have "distinct (concat (grouper ks 999))" by simp
  from found_mset [OF this, of hash_raw "fingerprints d"] c
  have "mset (found d (grouper ks 999)) =
          {# f \<in># mset (fingerprints d). hash_raw f \<in> set (filter (\<lambda>b. b \<noteq> []) ks) #}"
    by (simp add: found_def)
  also have "\<dots> = {# f \<in># mset (fingerprints d). hash_raw f \<noteq> [] \<and> hash_raw f \<in> set ks #}"
    by (rule filter_mset_cong) auto
  finally show ?thesis .
qed

lemma return_matches_Inr:
  assumes "return_matches st hashes = (Inr out, st')"
  obtains mapper where "build_mapper hashes [] = Inr mapper"
    and "distinct (map fst mapper)"
    and "out = map (pair_of mapper) (found (db st) (grouper (map fst mapper) 999))"
    and "st' = st\<lparr>log := log st @ [Session] @ map Select_in (grouper (map fst mapper) 999)
                         @ [Commit, Close]\<rparr>"
proof (cases "build_mapper hashes []")
  case (Inl e)
  from return_matches_raise [OF this, of st] assms show ?thesis by simp
next
  case (Inr mapper)
  from build_mapper_distinct [OF Inr] have "distinct (map fst mapper)" by simp
  with return_matches_eq [OF Inr, of st] assms Inr that show ?thesis by simp
qed

lemma return_matches_total:
  assumes "\<forall>h\<in>set hashes. fromhex (fst h) \<noteq> None"
  shows "\<exists>out st'. return_matches st hashes = (Inr out, st')"
proof -
  from build_mapper_total [OF assms, of "[]"] obtain mapper where
    "build_mapper hashes [] = Inr mapper" ..
  from return_matches_eq [OF this, of st] show ?thesis by blast
qed

lemma return_matches_expected:
  assumes "return_matches st hashes = (Inr out, st')"
  shows "mset out = expected (fingerprints (db st)) hashes"
proof -
  from assms obtain mapper where m: "build_mapper hashes [] = Inr mapper"
    and d: "distinct (map fst mapper)"
    and out: "out = map (pair_of mapper) (found (db st) (grouper (map fst mapper) 999))"
    by (rule return_matches_Inr)
  have "mset out = image_mset (pair_of mapper)
          {# f \<in># mset (fingerprints (db st)). hash_raw f \<noteq> [] \<and> hash_raw f \<in> set (map fst mapper) #}"
    unfolding out by (simp only: mset_map found_grouper_mset [OF d])
  also have "{# f \<in># mset (fingerprints (db st)). hash_raw f \<noteq> [] \<and> hash_raw f \<in> set (map fst mapper) #}
     = {# f \<in># mset (fingerprints (db st)). hash_raw f \<noteq> [] \<and> last_offset hashes (hash_raw f) \<noteq> None #}"
    using mapper_key_iff [OF m] by (intro filter_mset_cong) auto
  also have "image_mset (pair_of mapper) \<dots> = expected (fingerprints (db st)) hashes"
    unfolding expected_def
    by (rule image_mset_cong) (simp add: pair_of_def build_mapper_map_of [OF m])
  finally show ?thesis .
qed

lemma expected_append:
  assumes "\<And>b. last_offset A b \<noteq> None \<Longrightarrow> last_offset B b = None"
  shows "expected rows (A @ B) = expected rows A + expected rows B"
proof -
  let ?M = "mset rows"
  let ?g = "\<lambda>H f. (fp_song_id f, song_offset f - the (last_offset H (hash_raw f)))"
  let ?P = "\<lambda>H f. hash_raw f \<noteq> [] \<and> last_offset H (hash_raw f) \<noteq> None"
  have split: "{# f \<in># ?M. ?P (A @ B) f #} = {# f \<in># ?M. ?P A f #} + {# f \<in># ?M. ?P B f #}"
    using assms by (intro multiset_eqI) (auto simp: last_offset_append split: option.splits)
  have a: "image_mset (?g (A @ B)) {# f \<in># ?M. ?P A f #} = image_mset (?g A) {# f \<in># ?M. ?P A f #}"
    using assms by (intro image_mset_cong) (auto simp: last_offset_append split: option.splits)
  have b: "image_mset (?g (A @ B)) {# f \<in># ?M. ?P B f #} = image_mset (?g B) {# f \<in># ?M. ?P B f #}"
    by (intro image_mset_cong) (auto simp: last_offset_append split: option.splits)
  show ?thesis
    unfolding expected_def split image_mset_union a b ..
qed

lemma expected_concat:
  "distinct (map (\<lambda>h. fromhex (fst h)) (concat parts)) \<Longrightarrow>
     expected rows (concat parts) = (\<Sum>p\<leftarrow>parts. expected rows p)"
proof (induction parts)
  case Nil
  then show ?case by (simp add: expected_def)
next
  case (Cons p parts)
  then have d: "distinct (map (\<lambda>h. fromhex (fst h)) (concat parts))"
    and dis: "(\<lambda>h. fromhex (fst h)) ` set p \<inter> (\<lambda>h. fromhex (fst h)) ` set (concat parts) = {}"
    by auto
  have "last_offset (concat parts) b = None" if "last_offset p b \<noteq> None" for b
  proof -
    from that obtain h where "h \<in> set p" "fromhex (fst h) = Some b"
      by (auto simp: last_offset_None_iff)
    then have "Some b \<in> (\<lambda>h. fromhex (fst h)) ` set p" by force
    with dis have "Some b \<notin> (\<lambda>h. fromhex (fst h)) ` set (concat parts)" by blast
    then show ?thesis by (force simp: last_offset_None_iff)
  qed
  from expected_append [OF this] Cons.IH [OF d] show ?case by simp
qed

text \<open>
  Claim C1, as the code has it.  When \<^verbatim>\<open>return_matches\<close> returns, every probe hash was
  hexadecimal text, the keys of \<open>mapper\<close> are the decoded probe hashes, and the pairs
  emitted are, counted with multiplicity, one pair \<open>(song_id, song_offset - mapper[hash])\<close>
  for each stored row whose hash is a key of \<open>mapper\<close> and is not the empty byte string.
\<close>

theorem return_matches_correspondences:
  assumes "return_matches st hashes = (Inr out, st')"
  shows "\<exists>mapper. build_mapper hashes [] = Inr mapper
           \<and> fst ` set mapper = {b. \<exists>h\<in>set hashes. fromhex (fst h) = Some b}
           \<and> mset out =
               {# (fp_song_id f, song_offset f - the (map_of mapper (hash_raw f))).
                  f \<in># {# f \<in># mset (fingerprints (db st)).
                            hash_raw f \<noteq> [] \<and> hash_raw f \<in> fst ` set mapper #} #}"
proof -
  from assms obtain mapper where m: "build_mapper hashes [] = Inr mapper"
    and d: "distinct (map fst mapper)"
    and out: "out = map (pair_of mapper) (found (db st) (grouper (map fst mapper) 999))"
    by (rule return_matches_Inr)
  have "mset out = image_mset (pair_of mapper)
          {# f \<in># mset (fingerprints (db st)). hash_raw f \<noteq> [] \<and> hash_raw f \<in> set (map fst mapper) #}"
    unfolding out by (simp only: mset_map found_grouper_mset [OF d])
  then have "mset out =
               {# (fp_song_id f, song_offset f - the (map_of mapper (hash_raw f))).
                  f \<in># {# f \<in># mset (fingerprints (db st)).
                            hash_raw f \<noteq> [] \<and> hash_raw f \<in> fst ` set mapper #} #}"
    by (simp add: pair_of_def [abs_def])
  with m build_mapper_keys [OF m] show ?thesis by blast
qed

lemma return_matches_store2:
  "return_matches store2 [(''abcd'', 5), (''ABCD'', 9), ('''', 3)] =
     (Inr [(1, 0)], store2\<lparr>log := [Session, Select_in [[171, 205]], Commit, Close]\<rparr>)"
  by code_simp

theorem return_matches_correspondences_witness:
  "return_matches store2 [(''abcd'', 5), (''ABCD'', 9), ('''', 3)] =
     (Inr [(1, 0)], store2\<lparr>log := [Session, Select_in [[171, 205]], Commit, Close]\<rparr>)
   \<and> (\<exists>mapper. build_mapper [(''abcd'', 5), (''ABCD'', 9), ('''', 3)] [] = Inr mapper
           \<and> fst ` set mapper
                = {b. \<exists>h\<in>set [(''abcd'', 5), (''ABCD'', 9), ('''', 3)]. fromhex (fst h) = Some b}
           \<and> mset [(1, 0)] =
               {# (fp_song_id f, song_offset f - the (map_of mapper (hash_raw f))).
                  f \<in># {# f \<in># mset (fingerprints (db store2)).
                            hash_raw f \<noteq> [] \<and> hash_raw f \<in> fst ` set mapper #} #})"
  using return_matches_correspondences [OF return_matches_store2] return_matches_store2
  by simp

text \<open>
  The claim as the specification words it fails at the empty hash: the stored row \<open>row_e\<close>
  has the hash the probe \<^verbatim>\<open>('', 3)\<close> decodes to, and nothing is emitted for it.
\<close>

theorem return_matches_empty_hash_counterexample:
  "fromhex '''' = Some (hash_raw row_e) \<and> row_e \<in> set (fingerprints (db store2))
   \<and> fst (return_matches store2 [('''', 3)]) = Inr []"
  by code_simp



text \<open>
  Claim C3.  The keys of \<open>mapper\<close> are the distinct probe hashes.  \<open>zip_longest\<close> cuts them
  into tuples of 999 entries, each holding between 1 and 999 keys and \<^verbatim>\<open>None\<close> otherwise;
  the keys of the tuples, in order, are the keys of \<open>mapper\<close>.  One lookup is sent for each
  tuple, with the entries of the tuple that are not \<^verbatim>\<open>None\<close> (nor empty).  And whenever the
  probe is cut into consecutive parts and its hashes are distinct, running each part alone
  returns, and all the parts together yield the pairs of the whole probe.
\<close>

theorem return_matches_chunked:
  assumes "return_matches st hashes = (Inr out, st')"
  shows "\<exists>mapper groups.
            build_mapper hashes [] = Inr mapper
          \<and> distinct (map fst mapper)
          \<and> set (map fst mapper) = {b. \<exists>h\<in>set hashes. fromhex (fst h) = Some b}
          \<and> groups = zip_longest (map fst mapper) 999
          \<and> concat (map (\<lambda>g. map the (filter (\<lambda>v. v \<noteq> None) g)) groups) = map fst mapper
          \<and> (\<forall>g\<in>set groups. length g = 999 \<and> filter (\<lambda>v. v \<noteq> None) g \<noteq> []
                 \<and> length (filter (\<lambda>v. v \<noteq> None) g) \<le> 999)
          \<and> length groups = (length mapper + 998) div 999
          \<and> log st' = log st @ [Session] @ map (\<lambda>g. Select_in (filter_None g)) groups
                         @ [Commit, Close]
          \<and> (\<forall>g\<in>set groups. set (filter_None g) = {b. Some b \<in> set g \<and> b \<noteq> []})
          \<and> (\<forall>parts. concat parts = hashes \<and> distinct (map (\<lambda>h. fromhex (fst h)) hashes) \<longrightarrow>
                (\<exists>outs. map (\<lambda>p. fst (return_matches st p)) parts = map Inr outs
                      \<and> set out = set (concat outs) \<and> mset out = mset (concat outs)))"
proof -
  from assms obtain mapper where m: "build_mapper hashes [] = Inr mapper"
    and d: "distinct (map fst mapper)"
    and st': "st' = st\<lparr>log := log st @ [Session] @ map Select_in (grouper (map fst mapper) 999)
                         @ [Commit, Close]\<rparr>"
    by (rule return_matches_Inr)
  let ?groups = "zip_longest (map fst mapper) 999"
  have keys: "set (map fst mapper) = {b. \<exists>h\<in>set hashes. fromhex (fst h) = Some b}"
    using build_mapper_keys [OF m] by simp
  have part: "concat (map (\<lambda>g. map the (filter (\<lambda>v. v \<noteq> None) g)) ?groups) = map fst mapper"
    by (rule zip_longest_real) simp
  have size: "\<forall>g\<in>set ?groups. length g = 999 \<and> filter (\<lambda>v. v \<noteq> None) g \<noteq> []
                 \<and> length (filter (\<lambda>v. v \<noteq> None) g) \<le> 999"
    using zip_longest_length by blast
  have count: "length ?groups = (length mapper + 998) div 999"
    using zip_longest_count [of 999 "map fst mapper"] by simp
  have lg: "log st' = log st @ [Session] @ map (\<lambda>g. Select_in (filter_None g)) ?groups
                         @ [Commit, Close]"
    by (simp add: st' grouper_def comp_def)
  have strip: "\<forall>g\<in>set ?groups. set (filter_None g) = {b. Some b \<in> set g \<and> b \<noteq> []}"
  proof
    fix g
    have "truthy v \<longleftrightarrow> (\<exists>b. v = Some b \<and> b \<noteq> [])" for v by (cases v) simp_all
    then show "set (filter_None g) = {b. Some b \<in> set g \<and> b \<noteq> []}"
      by (force simp: filter_None_def)
  qed
  have split: "\<exists>outs. map (\<lambda>p. fst (return_matches st p)) parts = map Inr outs
                      \<and> set out = set (concat outs) \<and> mset out = mset (concat outs)"
    if c: "concat parts = hashes" and dh: "distinct (map (\<lambda>h. fromhex (fst h)) hashes)"
    for parts
  proof -
    let ?outs = "map (\<lambda>p. projr (fst (return_matches st p))) parts"
    have each: "\<exists>o' s'. return_matches st p = (Inr o', s')" if "p \<in> set parts" for p
    proof (rule return_matches_total)
      from that c have "set p \<subseteq> set hashes" by auto
      with build_mapper_decodes [OF m] show "\<forall>h\<in>set p. fromhex (fst h) \<noteq> None" by blast
    qed
    have a: "map (\<lambda>p. fst (return_matches st p)) parts = map Inr ?outs"
      unfolding map_map comp_def
    proof (rule map_cong [OF refl])
      fix p assume "p \<in> set parts"
      from each [OF this] obtain o' s' where "return_matches st p = (Inr o', s')" by blast
      then show "fst (return_matches st p) = Inr (projr (fst (return_matches st p)))" by simp
    qed
    have "mset (concat ?outs) = (\<Sum>p\<leftarrow>parts. expected (fingerprints (db st)) p)"
      unfolding mset_concat map_map comp_def
    proof (rule arg_cong [where f = sum_list], rule map_cong [OF refl])
      fix p assume "p \<in> set parts"
      from each [OF this] obtain o' s' where r: "return_matches st p = (Inr o', s')" by blast
      from return_matches_expected [OF r] r
      show "mset (projr (fst (return_matches st p))) = expected (fingerprints (db st)) p"
        by simp
    qed
    also have "\<dots> = expected (fingerprints (db st)) (concat parts)"
      using expected_concat [where parts = parts and rows = "fingerprints (db st)"] dh c
      by simp
    also have "\<dots> = mset out"
      using return_matches_expected [OF assms] c by simp
    finally have b: "mset out = mset (concat ?outs)" by simp
    from a b mset_eq_setD [OF b] show ?thesis by blast
  qed
  from m d keys part size count lg strip split show ?thesis by blast
qed

lemma return_matches_store2_two:
  "return_matches store2 [(''abcd'', 5), (''00'', 1)] =
     (Inr [(1, 4)], store2\<lparr>log := [Session, Select_in [[171, 205], [0]], Commit, Close]\<rparr>)"
  by code_simp

theorem return_matches_chunked_witness:
  "return_matches store2 [(''abcd'', 5), (''00'', 1)] =
     (Inr [(1, 4)], store2\<lparr>log := [Session, Select_in [[171, 205], [0]], Commit, Close]\<rparr>)
   \<and> concat [[(''abcd'', 5)], [(''00'', 1 :: int)]] = [(''abcd'', 5), (''00'', 1)]
   \<and> distinct (map (\<lambda>h. fromhex (fst h)) [(''abcd'', 5 :: int), (''00'', 1)])
   \<and> (\<exists>outs. map (\<lambda>p. fst (return_matches store2 p)) [[(''abcd'', 5)], [(''00'', 1)]]
                 = map Inr outs
            \<and> set [(1, 4)] = set (concat outs))"
proof -
  have c: "concat [[(''abcd'', 5)], [(''00'', 1 :: int)]] = [(''abcd'', 5), (''00'', 1)]"
    by simp
  have d: "distinct (map (\<lambda>h. fromhex (fst h)) [(''abcd'', 5 :: int), (''00'', 1)])"
    by code_simp
  from return_matches_chunked [OF return_matches_store2_two] c d
  have "\<exists>outs. map (\<lambda>p. fst (return_matches store2 p)) [[(''abcd'', 5)], [(''00'', 1)]]
                 = map Inr outs
            \<and> set [(1, 4)] = set (concat outs)"
    by blast
  with return_matches_store2_two c d show ?thesis by blast
qed

lemma grouper_no_empty: "sp \<in> set (grouper ks n) \<Longrightarrow> [] \<notin> set sp"
proof -
  have "truthy v \<longleftrightarrow> (\<exists>b. v = Some b \<and> b \<noteq> [])" for v by (cases v) simp_all
  then show "sp \<in> set (grouper ks n) \<Longrightarrow> [] \<notin> set sp"
    by (force simp: grouper_def filter_None_def)
qed

lemma found_without_empty:
  "\<forall>sp\<in>set splits. [] \<notin> set sp \<Longrightarrow>
     found (d\<lparr>fingerprints := filter (\<lambda>f. hash_raw f \<noteq> []) (fingerprints d)\<rparr>) splits
       = found d splits"
proof (induction splits)
  case Nil
  then show ?case by (simp add: found_def)
next
  case (Cons sp splits)
  then have "[] \<notin> set sp" by simp
  then have "filter (\<lambda>f. hash_raw f \<in> set sp) (filter (\<lambda>f. hash_raw f \<noteq> []) (fingerprints d))
          = filter (\<lambda>f. hash_raw f \<in> set sp) (fingerprints d)"
    by (auto intro!: filter_cong)
  with Cons show ?case by (simp add: found_def)
qed

lemma last_offset_filter:
  "b \<noteq> [] \<Longrightarrow>
     last_offset (filter (\<lambda>h. fromhex (fst h) \<noteq> Some []) hashes) b = last_offset hashes b"
proof -
  assume "b \<noteq> []"
  then have "filter (\<lambda>h. fromhex (fst h) = Some b) (filter (\<lambda>h. fromhex (fst h) \<noteq> Some []) hashes)
        = filter (\<lambda>h. fromhex (fst h) = Some b) hashes"
    by (auto intro!: filter_cong)
  then show ?thesis by (simp add: last_offset_def)
qed

lemma expected_filter:
  "expected rows (filter (\<lambda>h. fromhex (fst h) \<noteq> Some []) hashes) = expected rows hashes"
proof -
  have "{# f \<in># mset rows. hash_raw f \<noteq> []
           \<and> last_offset (filter (\<lambda>h. fromhex (fst h) \<noteq> Some []) hashes) (hash_raw f) \<noteq> None #}
      = {# f \<in># mset rows. hash_raw f \<noteq> [] \<and> last_offset hashes (hash_raw f) \<noteq> None #}"
    by (rule filter_mset_cong) (auto simp: last_offset_filter)
  then show ?thesis
    unfolding expected_def
    by (auto intro!: image_mset_cong simp: last_offset_filter)
qed

lemma expected_only_empty:
  "\<forall>h\<in>set hashes. fromhex (fst h) = Some [] \<Longrightarrow> expected rows hashes = {#}"
proof -
  assume a: "\<forall>h\<in>set hashes. fromhex (fst h) = Some []"
  have "last_offset hashes b = None" if "b \<noteq> []" for b
    using a that by (auto simp: last_offset_None_iff)
  then have "\<not> (hash_raw f \<noteq> [] \<and> last_offset hashes (hash_raw f) \<noteq> None)" for f :: fingerprint
    by (cases "hash_raw f = []") simp_all
  then have "{# f \<in># mset rows. hash_raw f \<noteq> [] \<and> last_offset hashes (hash_raw f) \<noteq> None #} = {#}"
    by (simp only: filter_mset_False)
  then show ?thesis by (simp only: expected_def image_mset_empty)
qed

text \<open>
  Claim C10.  No lookup sent by \<^verbatim>\<open>return_matches\<close> contains the empty byte string.  So the
  rows stored under the empty hash contribute nothing: the result is the same with those
  rows deleted, the same pairs come out with the probe pairs of empty hash left out, and
  a probe of empty hashes alone yields nothing.
\<close>

theorem return_matches_drops_empty_hash:
  assumes "return_matches st hashes = (Inr out, st')"
  shows "(\<exists>evs. log st' = log st @ evs \<and> (\<forall>ks. Select_in ks \<in> set evs \<longrightarrow> [] \<notin> set ks))
       \<and> fst (return_matches
                (st\<lparr>db := (db st)\<lparr>fingerprints :=
                        filter (\<lambda>f. hash_raw f \<noteq> []) (fingerprints (db st))\<rparr>\<rparr>) hashes) = Inr out
       \<and> (\<exists>out'. fst (return_matches st (filter (\<lambda>h. fromhex (fst h) \<noteq> Some []) hashes))
                    = Inr out' \<and> mset out' = mset out)
       \<and> ((\<forall>h\<in>set hashes. fromhex (fst h) = Some []) \<longrightarrow> out = [])"
proof (intro conjI)
  from assms obtain mapper where m: "build_mapper hashes [] = Inr mapper"
    and out: "out = map (pair_of mapper) (found (db st) (grouper (map fst mapper) 999))"
    and st': "st' = st\<lparr>log := log st @ [Session] @ map Select_in (grouper (map fst mapper) 999)
                         @ [Commit, Close]\<rparr>"
    by (rule return_matches_Inr)
  let ?G = "grouper (map fst mapper) 999"
  show "\<exists>evs. log st' = log st @ evs \<and> (\<forall>ks. Select_in ks \<in> set evs \<longrightarrow> [] \<notin> set ks)"
  proof (intro exI conjI allI impI)
    show "log st' = log st @ ([Session] @ map Select_in ?G @ [Commit, Close])"
      by (simp add: st')
    fix ks assume "Select_in ks \<in> set ([Session] @ map Select_in ?G @ [Commit, Close])"
    then have "ks \<in> set ?G" by auto
    then show "[] \<notin> set ks" by (rule grouper_no_empty)
  qed
  let ?st = "st\<lparr>db := (db st)\<lparr>fingerprints :=
                        filter (\<lambda>f. hash_raw f \<noteq> []) (fingerprints (db st))\<rparr>\<rparr>"
  have "found (db ?st) ?G = found (db st) ?G"
    using found_without_empty [of ?G "db st"] grouper_no_empty by auto
  with return_matches_eq [OF m, of ?st] out
  show "fst (return_matches ?st hashes) = Inr out" by simp
  let ?hs = "filter (\<lambda>h. fromhex (fst h) \<noteq> Some []) hashes"
  from build_mapper_decodes [OF m] have "\<forall>h\<in>set ?hs. fromhex (fst h) \<noteq> None" by simp
  from return_matches_total [OF this, of st] obtain out' s' where
    r: "return_matches st ?hs = (Inr out', s')" by blast
  from return_matches_expected [OF r] return_matches_expected [OF assms]
  have "mset out' = mset out" by (simp add: expected_filter)
  with r show "\<exists>out'. fst (return_matches st ?hs) = Inr out' \<and> mset out' = mset out" by simp
  show "(\<forall>h\<in>set hashes. fromhex (fst h) = Some []) \<longrightarrow> out = []"
    using return_matches_expected [OF assms] by (auto simp: expected_only_empty)
qed

lemma return_matches_store2_empty:
  "return_matches store2 [('''', 3)] =
     (Inr [], store2\<lparr>log := [Session, Select_in [], Commit, Close]\<rparr>)"
  by code_simp

theorem return_matches_drops_empty_hash_witness:
  "return_matches store2 [('''', 3)] =
     (Inr [], store2\<lparr>log := [Session, Select_in [], Commit, Close]\<rparr>)
   \<and> fromhex '''' = Some []
   \<and> return_matches store2 [(''abcd'', 5), (''ABCD'', 9), ('''', 3)] =
       (Inr [(1, 0)], store2\<lparr>log := [Session, Select_in [[171, 205]], Commit, Close]\<rparr>)
   \<and> fst (return_matches
            (store2\<lparr>db := (db store2)\<lparr>fingerprints :=
                    filter (\<lambda>f. hash_raw f \<noteq> []) (fingerprints (db store2))\<rparr>\<rparr>)
            [(''abcd'', 5), (''ABCD'', 9), ('''', 3)])
       = Inr [(1, 0)]"
  using return_matches_drops_empty_hash [OF return_matches_store2_empty]
        return_matches_drops_empty_hash [OF return_matches_store2]
        return_matches_store2_empty return_matches_store2
  by simp

end
